theory Spec2Isabelle
  imports Main
begin

section \<open>The event bridge of examples/kbrdhook.cpp\<close>

text \<open>
  The file defines the class template \<^verbatim>\<open>event_sender_range_factory\<close>: a callback that an
  event source invokes on its own thread (\<^verbatim>\<open>event_function::operator()\<close>), operation states
  that publish themselves into two atomic fields of the factory
  (\<^verbatim>\<open>pendingOperation_\<close>, \<^verbatim>\<open>complete_with_event_\<close>), senders, and a range of senders whose
  destructor unregisters the source.

  The embedding is a state-passing one. A \<^emph>\<open>world\<close> holds the one factory, the operation
  states that are alive (by address), and the calls made so far to code outside the file:
  the register and unregister callables, the destructor of the registration and
  \<^verbatim>\<open>unifex::set_value\<close> of a receiver. Both atomics are used with the default memory order
  (sequentially consistent), so every atomic access is one indivisible step on the world and
  executions of several threads are interleavings of such steps.

  The members of the source end in an underscore, which a name in a term here cannot: the
  member \<^verbatim>\<open>pendingOperation_\<close> is the field \<open>pendingOperation'\<close>, and so on. The template
  parameters are type variables: \<open>'e\<close> for \<^verbatim>\<open>EventType\<close>, \<open>'tok\<close> for \<^verbatim>\<open>StopToken\<close>, \<open>'rcv\<close>
  for the receivers and \<open>'reg\<close> for \<^verbatim>\<open>registration_t\<close>, the result type of the register
  callable.
\<close>

subsection \<open>Data\<close>

type_synonym addr = nat

text \<open>
  \<^verbatim>\<open>std::terminate()\<close> ends the process; a \<^verbatim>\<open>reinterpret_cast\<close> to a type the object does
  not have, or the use of an object that is not alive, has no defined behaviour.
\<close>

datatype error = Terminate | Undefined_behaviour

text \<open>
  Every pointer to the factory (\<^verbatim>\<open>factory_\<close>, \<^verbatim>\<open>this\<close>) denotes the one factory of the
  world.
\<close>

datatype factory_ptr = This_factory

text \<open>
  \<^verbatim>\<open>complete_function_t\<close> is a pointer to function. The only functions whose address the
  file takes are the static members \<^verbatim>\<open>complete_with_event\<close> of the instantiations
  \<^verbatim>\<open>event_operation_state<StopToken, Receiver>\<close>; the number names the instantiation.
  \<^verbatim>\<open>nullptr\<close> is \<open>None\<close> of the option type, for this pointer and for \<^verbatim>\<open>void*\<close>.
\<close>

datatype complete_function_t = Complete_with_event nat

record event_function =
  ef_factory' :: factory_ptr

text \<open>
  The union \<^verbatim>\<open>storage\<close> (lines 57-61) holds the integer \<^verbatim>\<open>empty_\<close>, or the registration, or,
  once the registration has been destroyed, no object. The register callable takes the event
  function and returns the registration; the unregister callable gets the registration by
  reference and may change it. What else the two callables and \<^verbatim>\<open>set_value\<close> do is outside
  the file: a call of them is recorded in the list of calls of the world.
\<close>

datatype 'reg storage = Empty int | Registration 'reg | Destroyed

record 'reg event_sender_range_factory =
  registerFn' :: "event_function \<Rightarrow> 'reg"
  unregisterFn' :: "'reg \<Rightarrow> 'reg"
  storage' :: "'reg storage"
  pendingOperation' :: "addr option"
  complete_with_event' :: "complete_function_t option"
  event_function' :: event_function

record ('tok, 'rcv) event_operation_state =
  factory' :: factory_ptr
  stopToken' :: 'tok
  receiver' :: 'rcv

record 'tok event_sender =
  sender_factory' :: factory_ptr
  sender_stopToken' :: 'tok

record 'tok sender_range =
  range_factory' :: factory_ptr
  range' :: "int \<Rightarrow> 'tok event_sender"

text \<open>
  The range (lines 108-119) is \<^verbatim>\<open>iota(0) | transform(senderFactory)\<close>: \<open>range'\<close> gives the
  sender made from an integer of \<^verbatim>\<open>iota(0)\<close>.

  The calls that leave the file: of the register callable with the event function, of the
  unregister callable with the registration, of the destructor of the registration, and of
  \<^verbatim>\<open>set_value\<close> with a receiver and an event.
\<close>

datatype ('e, 'rcv, 'reg) call =
    Register event_function
  | Unregister 'reg
  | Destroy_registration 'reg
  | Set_value 'rcv 'e

text \<open>
  An object on the heap is an operation state together with the instantiation of
  \<^verbatim>\<open>event_operation_state\<close> it belongs to.
\<close>

record ('e, 'tok, 'rcv, 'reg) world =
  factory :: "'reg event_sender_range_factory"
  heap :: "addr \<rightharpoonup> nat \<times> ('tok, 'rcv) event_operation_state"
  calls :: "('e, 'rcv, 'reg) call list"

subsection \<open>The atomic accesses\<close>

text \<open>
  \<^verbatim>\<open>std::atomic<T*>::exchange(desired)\<close> returns the old content and stores the new one;
  \<^verbatim>\<open>compare_exchange_strong(expected, desired)\<close> stores \<open>desired\<close> and returns true when the
  content equals \<open>expected\<close>, and returns false without storing otherwise. The second
  component of the result is the content of the cell afterwards.
\<close>

definition exchange :: "'a option \<Rightarrow> 'a option \<Rightarrow> 'a option \<times> 'a option" where
  "exchange cell desired = (cell, desired)"

definition compare_exchange_strong ::
  "'a option \<Rightarrow> 'a option \<Rightarrow> 'a option \<Rightarrow> bool \<times> 'a option" where
  "compare_exchange_strong cell expected desired =
     (if cell = expected then (True, desired) else (False, cell))"

definition exchange_pendingOperation ::
  "addr option \<Rightarrow> ('e, 'tok, 'rcv, 'reg) world \<Rightarrow> addr option \<times> ('e, 'tok, 'rcv, 'reg) world" where
  "exchange_pendingOperation desired w =
     (case exchange (pendingOperation' (factory w)) desired of
        (old, new) \<Rightarrow> (old, w\<lparr>factory := (factory w)\<lparr>pendingOperation' := new\<rparr>\<rparr>))"

definition exchange_complete_with_event ::
  "complete_function_t option \<Rightarrow> ('e, 'tok, 'rcv, 'reg) world
     \<Rightarrow> complete_function_t option \<times> ('e, 'tok, 'rcv, 'reg) world" where
  "exchange_complete_with_event desired w =
     (case exchange (complete_with_event' (factory w)) desired of
        (old, new) \<Rightarrow> (old, w\<lparr>factory := (factory w)\<lparr>complete_with_event' := new\<rparr>\<rparr>))"

definition compare_exchange_strong_pendingOperation ::
  "addr option \<Rightarrow> addr option \<Rightarrow> ('e, 'tok, 'rcv, 'reg) world
     \<Rightarrow> bool \<times> ('e, 'tok, 'rcv, 'reg) world" where
  "compare_exchange_strong_pendingOperation expected desired w =
     (case compare_exchange_strong (pendingOperation' (factory w)) expected desired of
        (ok, new) \<Rightarrow> (ok, w\<lparr>factory := (factory w)\<lparr>pendingOperation' := new\<rparr>\<rparr>))"

definition compare_exchange_strong_complete_with_event ::
  "complete_function_t option \<Rightarrow> complete_function_t option \<Rightarrow> ('e, 'tok, 'rcv, 'reg) world
     \<Rightarrow> bool \<times> ('e, 'tok, 'rcv, 'reg) world" where
  "compare_exchange_strong_complete_with_event expected desired w =
     (case compare_exchange_strong (complete_with_event' (factory w)) expected desired of
        (ok, new) \<Rightarrow> (ok, w\<lparr>factory := (factory w)\<lparr>complete_with_event' := new\<rparr>\<rparr>))"

subsection \<open>The operation state\<close>

text \<open>
  \<^verbatim>\<open>event_operation_state<StopToken, Receiver>::complete_with_event\<close> of instantiation \<open>k\<close>
  (lines 73-76) casts the \<^verbatim>\<open>void*\<close> to its own operation state type and hands the event to
  that state's receiver.
\<close>

definition complete_with_event ::
  "nat \<Rightarrow> addr \<Rightarrow> 'e \<Rightarrow> ('e, 'tok, 'rcv, 'reg) world \<Rightarrow> error + ('e, 'tok, 'rcv, 'reg) world" where
  "complete_with_event k selfVoid event w =
     (case heap w selfVoid of
        None \<Rightarrow> Inl Undefined_behaviour
      | Some (k', self) \<Rightarrow>
          if k' = k then Inr (w\<lparr>calls := calls w @ [Set_value (receiver' self) event]\<rparr>)
          else Inl Undefined_behaviour)"

text \<open>A call through a pointer of type \<^verbatim>\<open>complete_function_t\<close>.\<close>

fun invoke ::
  "complete_function_t \<Rightarrow> addr \<Rightarrow> 'e \<Rightarrow> ('e, 'tok, 'rcv, 'reg) world
     \<Rightarrow> error + ('e, 'tok, 'rcv, 'reg) world" where
  "invoke (Complete_with_event k) op event w = complete_with_event k op event w"

text \<open>
  \<^verbatim>\<open>event_operation_state::start\<close> (lines 78-87), called on the operation state at address
  \<open>this\<close>: two compare-exchanges from \<^verbatim>\<open>nullptr\<close>, each followed by \<^verbatim>\<open>std::terminate()\<close> when
  it fails.
\<close>

definition operation_start ::
  "addr \<Rightarrow> ('e, 'tok, 'rcv, 'reg) world \<Rightarrow> error + ('e, 'tok, 'rcv, 'reg) world" where
  "operation_start this w =
     (case heap w this of
        None \<Rightarrow> Inl Undefined_behaviour
      | Some (k, self) \<Rightarrow>
          (case compare_exchange_strong_pendingOperation None (Some this) w of
             (False, w1) \<Rightarrow> Inl Terminate
           | (True, w1) \<Rightarrow>
               (case compare_exchange_strong_complete_with_event None
                       (Some (Complete_with_event k)) w1 of
                  (False, w2) \<Rightarrow> Inl Terminate
                | (True, w2) \<Rightarrow> Inr w2)))"

subsection \<open>The event callback\<close>

text \<open>
  The loop of lines 46-48, run with no other thread taking a step: it exchanges the
  trampoline with \<^verbatim>\<open>nullptr\<close> until it has read a function. \<open>None\<close> is the loop that never
  ends.
\<close>

partial_function (option) spin ::
  "('e, 'tok, 'rcv, 'reg) world \<Rightarrow> (complete_function_t \<times> ('e, 'tok, 'rcv, 'reg) world) option" where
  "spin w =
     (case exchange_complete_with_event None w of
        (None, w') \<Rightarrow> spin w'
      | (Some f, w') \<Rightarrow> Some (f, w'))"

text \<open>\<^verbatim>\<open>event_function::operator()\<close> (lines 42-51), run with no other thread taking a step.\<close>

definition event_function_call ::
  "'e \<Rightarrow> ('e, 'tok, 'rcv, 'reg) world \<Rightarrow> (error + ('e, 'tok, 'rcv, 'reg) world) option" where
  "event_function_call event w =
     (case exchange_pendingOperation None w of
        (None, w1) \<Rightarrow> Some (Inr w1)
      | (Some op, w1) \<Rightarrow>
          (case spin w1 of
             None \<Rightarrow> None
           | Some (f, w2) \<Rightarrow> Some (invoke f op event w2)))"

subsection \<open>Senders and the range of senders\<close>

text \<open>
  \<^verbatim>\<open>event_sender::connect\<close> (lines 102-105) returns the aggregate
  \<^verbatim>\<open>{factory_, stopToken_, receiver}\<close> of type \<^verbatim>\<open>event_operation_state<StopToken, Receiver>\<close>;
  \<open>k\<close> names that instantiation. The caller decides where the returned object lives:
  \<open>emplace\<close> is the materialisation of the returned value at an address.
\<close>

definition connect ::
  "nat \<Rightarrow> 'tok event_sender \<Rightarrow> 'rcv \<Rightarrow> nat \<times> ('tok, 'rcv) event_operation_state" where
  "connect k sender receiver =
     (k, \<lparr>factory' = sender_factory' sender, stopToken' = sender_stopToken' sender,
          receiver' = receiver\<rparr>)"

definition emplace ::
  "addr \<Rightarrow> nat \<times> ('tok, 'rcv) event_operation_state \<Rightarrow> ('e, 'tok, 'rcv, 'reg) world
     \<Rightarrow> ('e, 'tok, 'rcv, 'reg) world" where
  "emplace a obj w = w\<lparr>heap := (heap w)(a \<mapsto> obj)\<rparr>"

text \<open>The lambda of lines 126-128: it ignores the integer.\<close>

definition senderFactory :: "'tok \<Rightarrow> int \<Rightarrow> 'tok event_sender" where
  "senderFactory token i = \<lparr>sender_factory' = This_factory, sender_stopToken' = token\<rparr>"

text \<open>
  \<^verbatim>\<open>event_sender_range_factory::start\<close> (lines 121-131): it calls the register callable
  with the factory's event function, constructs the registration in the storage from the
  result, and returns the range \<^verbatim>\<open>iota(0) | transform(senderFactory)\<close>, whose element of
  position \<open>n\<close> is the sender made from the integer \<open>n\<close>.
\<close>

definition factory_start ::
  "'tok \<Rightarrow> ('e, 'tok, 'rcv, 'reg) world \<Rightarrow> 'tok sender_range \<times> ('e, 'tok, 'rcv, 'reg) world" where
  "factory_start token w =
     (let registration = registerFn' (factory w) (event_function' (factory w));
          w1 = w\<lparr>factory := (factory w)\<lparr>storage' := Registration registration\<rparr>,
                 calls := calls w @ [Register (event_function' (factory w))]\<rparr>
      in (\<lparr>range_factory' = This_factory, range' = senderFactory token\<rparr>, w1))"

text \<open>
  \<^verbatim>\<open>sender_range::~sender_range\<close> (lines 112-115): the unregister callable gets the
  registration by reference, then the registration is destroyed. Reading
  \<^verbatim>\<open>storage_.registration_\<close> while the union holds no registration is undefined.
\<close>

definition sender_range_dtor ::
  "'tok sender_range \<Rightarrow> ('e, 'tok, 'rcv, 'reg) world \<Rightarrow> error + ('e, 'tok, 'rcv, 'reg) world" where
  "sender_range_dtor r w =
     (case storage' (factory w) of
        Registration registration \<Rightarrow>
          Inr (w\<lparr>factory := (factory w)\<lparr>storage' := Destroyed\<rparr>,
                 calls := calls w @ [Unregister registration,
                            Destroy_registration (unregisterFn' (factory w) registration)]\<rparr>)
      | _ \<Rightarrow> Inl Undefined_behaviour)"

text \<open>
  \<^verbatim>\<open>create_event_sender_range\<close> (lines 134-141) returns
  \<^verbatim>\<open>{registerFn, unregisterFn, {0}}\<close>; the other members take their default initialisers
  (lines 62-65).
\<close>

definition create_event_sender_range ::
  "(event_function \<Rightarrow> 'reg) \<Rightarrow> ('reg \<Rightarrow> 'reg) \<Rightarrow> 'reg event_sender_range_factory" where
  "create_event_sender_range registerFn unregisterFn =
     \<lparr>registerFn' = registerFn, unregisterFn' = unregisterFn, storage' = Empty 0,
      pendingOperation' = None, complete_with_event' = None,
      event_function' = \<lparr>ef_factory' = This_factory\<rparr>\<rparr>"

text \<open>
  \<^verbatim>\<open>~event_sender_range_factory() {}\<close> (line 37) and \<^verbatim>\<open>~storage() {}\<close> (line 58) have empty
  bodies: the destructor of the factory calls nothing, and the destructor of the union does
  not destroy a registration. \<open>storage_dtor\<close> is the list of the calls that the destructor of
  the union makes, which the destructor of the factory runs for its member \<^verbatim>\<open>storage_\<close>.
\<close>

definition storage_dtor :: "'reg storage \<Rightarrow> ('e, 'rcv, 'reg) call list" where
  "storage_dtor s = []"

definition event_sender_range_factory_dtor ::
  "('e, 'tok, 'rcv, 'reg) world \<Rightarrow> ('e, 'tok, 'rcv, 'reg) world" where
  "event_sender_range_factory_dtor w = w\<lparr>calls := calls w @ storage_dtor (storage' (factory w))\<rparr>"

subsection \<open>The keyboard hook\<close>

text \<open>
  \<^verbatim>\<open>kbdhookstate\<close> (lines 144-202) is the registration of \<^verbatim>\<open>main\<close>. Its constructor stores
  the callback, sets the hook handle to \<^verbatim>\<open>NULL\<close> and starts the message thread; it returns
  without waiting for that thread. The thread (lines 155-185) stores the result of
  \<^verbatim>\<open>SetWindowsHookExW\<close>, which is \<^verbatim>\<open>NULL\<close> when the hook cannot be installed, and calls
  \<^verbatim>\<open>std::terminate()\<close> in that case; otherwise it goes on to the message loop, where the
  embedding of the thread ends. The result of \<^verbatim>\<open>SetWindowsHookExW\<close> is an argument of the
  thread's function. The member \<^verbatim>\<open>msgThread_\<close> is the handle of that thread and the static
  \<^verbatim>\<open>self_\<close> serves the hook procedure; neither is read by the constructor or the thread
  after it is written, and the record leaves them out.
\<close>

type_synonym hhook = nat

record 'fn kbdhookstate =
  fn' :: 'fn
  hHook' :: "hhook option"

definition kbdhookstate_ctor :: "'fn \<Rightarrow> 'fn kbdhookstate" where
  "kbdhookstate_ctor fn = \<lparr>fn' = fn, hHook' = None\<rparr>"

definition msgThread :: "hhook option \<Rightarrow> 'fn kbdhookstate \<Rightarrow> error + 'fn kbdhookstate" where
  "msgThread setWindowsHookExW self =
     (let self1 = self\<lparr>hHook' := setWindowsHookExW\<rparr>
      in if hHook' self1 = None then Inl Terminate else Inr self1)"

text \<open>The factory of \<^verbatim>\<open>main\<close> (lines 208-212).\<close>

definition eventRangeFactory :: "event_function kbdhookstate event_sender_range_factory" where
  "eventRangeFactory = create_event_sender_range (\<lambda>fn. kbdhookstate_ctor fn) (\<lambda>r. r)"

subsection \<open>Uses of the bridge in sequence\<close>

text \<open>
  \<^verbatim>\<open>main\<close> (lines 214-219) takes the range from \<^verbatim>\<open>start\<close>, and for each sender of the range
  connects it, starts the operation and waits for the event; the range is destroyed when the
  loop is left. The uses below are the steps of such a driver, in any order: connecting the
  sender of position \<open>n\<close> to a receiver (the operation state, of instantiation \<open>k\<close>, is placed
  at an address), starting the operation state at an address, and one call of the event
  callback by the event source.
\<close>

datatype ('e, 'rcv) use =
    Connect addr nat nat 'rcv
  | Start addr
  | Deliver 'e

fun perform ::
  "'tok sender_range \<Rightarrow> ('e, 'rcv) use \<Rightarrow> ('e, 'tok, 'rcv, 'reg) world
     \<Rightarrow> (error + ('e, 'tok, 'rcv, 'reg) world) option" where
  "perform r (Connect a k n receiver) w =
     Some (Inr (emplace a (connect k (range' r (int n)) receiver) w))"
| "perform r (Start a) w = Some (operation_start a w)"
| "perform r (Deliver event) w = event_function_call event w"

fun perform_all ::
  "'tok sender_range \<Rightarrow> ('e, 'rcv) use list \<Rightarrow> ('e, 'tok, 'rcv, 'reg) world
     \<Rightarrow> (error + ('e, 'tok, 'rcv, 'reg) world) option" where
  "perform_all r [] w = Some (Inr w)"
| "perform_all r (u # us) w =
     (case perform r u w of
        None \<Rightarrow> None
      | Some (Inl x) \<Rightarrow> Some (Inl x)
      | Some (Inr w1) \<Rightarrow> perform_all r us w1)"

text \<open>
  One lifetime of the bridge: \<^verbatim>\<open>start\<close>, uses of the returned range, destruction of the
  range.
\<close>

definition bridge_lifetime ::
  "'tok \<Rightarrow> ('e, 'rcv) use list \<Rightarrow> ('e, 'tok, 'rcv, 'reg) world
     \<Rightarrow> (error + ('e, 'tok, 'rcv, 'reg) world) option" where
  "bridge_lifetime token us w =
     (case factory_start token w of
        (r, w1) \<Rightarrow>
          (case perform_all r us w1 of
             None \<Rightarrow> None
           | Some (Inl x) \<Rightarrow> Some (Inl x)
           | Some (Inr w2) \<Rightarrow> Some (sender_range_dtor r w2)))"

text \<open>
  A lifetime of a factory whose \<^verbatim>\<open>start\<close> is never called: the factory is created, the
  event callback may be called any number of times, the factory is destroyed. No sender and
  so no operation state exists in such a lifetime.
\<close>

fun deliver_all ::
  "'e list \<Rightarrow> ('e, 'tok, 'rcv, 'reg) world \<Rightarrow> (error + ('e, 'tok, 'rcv, 'reg) world) option" where
  "deliver_all [] w = Some (Inr w)"
| "deliver_all (event # events) w =
     (case event_function_call event w of
        None \<Rightarrow> None
      | Some (Inl x) \<Rightarrow> Some (Inl x)
      | Some (Inr w1) \<Rightarrow> deliver_all events w1)"

definition unstarted_lifetime ::
  "(event_function \<Rightarrow> 'reg) \<Rightarrow> ('reg \<Rightarrow> 'reg) \<Rightarrow> 'e list
     \<Rightarrow> (error + ('e, 'tok, 'rcv, 'reg) world) option" where
  "unstarted_lifetime registerFn unregisterFn events =
     (case deliver_all events
             \<lparr>factory = create_event_sender_range registerFn unregisterFn,
              heap = Map.empty, calls = []\<rparr> of
        None \<Rightarrow> None
      | Some (Inl x) \<Rightarrow> Some (Inl x)
      | Some (Inr w) \<Rightarrow> Some (Inr (event_sender_range_factory_dtor w)))"

text \<open>The calls to the register and the unregister callable among a list of calls.\<close>

fun is_registration_call :: "('e, 'rcv, 'reg) call \<Rightarrow> bool" where
  "is_registration_call (Register f) = True"
| "is_registration_call (Unregister r) = True"
| "is_registration_call (Destroy_registration r) = False"
| "is_registration_call (Set_value r e) = False"

definition registration_calls :: "('e, 'rcv, 'reg) call list \<Rightarrow> ('e, 'rcv, 'reg) call list" where
  "registration_calls cs = filter is_registration_call cs"

subsection \<open>The delivery thread and the consumer, interleaved\<close>

text \<open>
  One call of the event callback and one call of \<^verbatim>\<open>event_operation_state::start\<close>, cut at
  their atomic accesses. A program counter names the line of the source that the thread
  executes next, with the values of its locals.
\<close>

datatype 'e delivery_pc =
    Line_43 'e
  | Line_47 addr 'e
  | Line_49 addr complete_function_t 'e
  | Delivery_returned

datatype consumer_pc =
    Line_80 addr
  | Line_84 addr
  | Start_returned

fun delivery_step ::
  "'e delivery_pc \<Rightarrow> ('e, 'tok, 'rcv, 'reg) world
     \<Rightarrow> error + 'e delivery_pc \<times> ('e, 'tok, 'rcv, 'reg) world" where
  "delivery_step (Line_43 event) w =
     (case exchange_pendingOperation None w of
        (None, w1) \<Rightarrow> Inr (Delivery_returned, w1)
      | (Some op, w1) \<Rightarrow> Inr (Line_47 op event, w1))"
| "delivery_step (Line_47 op event) w =
     (case exchange_complete_with_event None w of
        (None, w1) \<Rightarrow> Inr (Line_47 op event, w1)
      | (Some f, w1) \<Rightarrow> Inr (Line_49 op f event, w1))"
| "delivery_step (Line_49 op f event) w =
     (case invoke f op event w of
        Inl x \<Rightarrow> Inl x
      | Inr w1 \<Rightarrow> Inr (Delivery_returned, w1))"
| "delivery_step Delivery_returned w = Inr (Delivery_returned, w)"

fun consumer_step ::
  "consumer_pc \<Rightarrow> ('e, 'tok, 'rcv, 'reg) world
     \<Rightarrow> error + consumer_pc \<times> ('e, 'tok, 'rcv, 'reg) world" where
  "consumer_step (Line_80 this) w =
     (case heap w this of
        None \<Rightarrow> Inl Undefined_behaviour
      | Some (k, self) \<Rightarrow>
          (case compare_exchange_strong_pendingOperation None (Some this) w of
             (False, w1) \<Rightarrow> Inl Terminate
           | (True, w1) \<Rightarrow> Inr (Line_84 this, w1)))"
| "consumer_step (Line_84 this) w =
     (case heap w this of
        None \<Rightarrow> Inl Undefined_behaviour
      | Some (k, self) \<Rightarrow>
          (case compare_exchange_strong_complete_with_event None
                  (Some (Complete_with_event k)) w of
             (False, w1) \<Rightarrow> Inl Terminate
           | (True, w1) \<Rightarrow> Inr (Start_returned, w1)))"
| "consumer_step Start_returned w = Inr (Start_returned, w)"

datatype thread = Delivery | Consumer

record ('e, 'tok, 'rcv, 'reg) config =
  delivery :: "'e delivery_pc"
  consumer :: consumer_pc
  shared :: "('e, 'tok, 'rcv, 'reg) world"

fun step ::
  "thread \<Rightarrow> ('e, 'tok, 'rcv, 'reg) config \<Rightarrow> error + ('e, 'tok, 'rcv, 'reg) config" where
  "step Delivery c =
     (case delivery_step (delivery c) (shared c) of
        Inl x \<Rightarrow> Inl x
      | Inr (pc, w) \<Rightarrow> Inr (c\<lparr>delivery := pc, shared := w\<rparr>))"
| "step Consumer c =
     (case consumer_step (consumer c) (shared c) of
        Inl x \<Rightarrow> Inl x
      | Inr (pc, w) \<Rightarrow> Inr (c\<lparr>consumer := pc, shared := w\<rparr>))"

text \<open>An execution under a schedule: the threads take their steps in the order listed.\<close>

fun run ::
  "thread list \<Rightarrow> ('e, 'tok, 'rcv, 'reg) config \<Rightarrow> error + ('e, 'tok, 'rcv, 'reg) config" where
  "run [] c = Inr c"
| "run (t # ts) c = (case step t c of Inl x \<Rightarrow> Inl x | Inr c1 \<Rightarrow> run ts c1)"

text \<open>The event that a call of the callback in progress is delivering.\<close>

fun delivering :: "'e delivery_pc \<Rightarrow> 'e option" where
  "delivering (Line_43 event) = Some event"
| "delivering (Line_47 op event) = Some event"
| "delivering (Line_49 op f event) = Some event"
| "delivering Delivery_returned = None"

subsection \<open>Replacing stop tokens\<close>

text \<open>
  The world in which every operation state holds the stop token \<open>g t\<close> where it held \<open>t\<close>;
  with a constant \<open>g\<close>, the world in which all stop tokens are one given token.
\<close>

definition retoken ::
  "('tok \<Rightarrow> 'tok) \<Rightarrow> ('e, 'tok, 'rcv, 'reg) world \<Rightarrow> ('e, 'tok, 'rcv, 'reg) world" where
  "retoken g w =
     w\<lparr>heap := map_option (\<lambda>(k, self). (k, self\<lparr>stopToken' := g (stopToken' self)\<rparr>)) \<circ> heap w\<rparr>"

subsection \<open>Example worlds\<close>

text \<open>
  A factory over an event source whose register callable returns the handle 7 and whose
  unregister callable leaves the handle as it is, with no operation state alive and no call
  made.
\<close>

definition world_created :: "(nat, nat, nat, nat) world" where
  "world_created =
     \<lparr>factory = create_event_sender_range (\<lambda>f. 7) (\<lambda>r. r), heap = Map.empty, calls = []\<rparr>"

text \<open>
  The same with an operation state of instantiation 0, stop token 3 and receiver 5 alive at
  address 100; then with that operation started; with its first compare-exchange done and
  the second not yet; and with the event 42 delivered to it.
\<close>

definition world_connected :: "(nat, nat, nat, nat) world" where
  "world_connected = emplace 100 (connect 0 (senderFactory 3 0) 5) world_created"

definition world_pending :: "(nat, nat, nat, nat) world" where
  "world_pending =
     world_connected\<lparr>factory := (factory world_connected)
       \<lparr>pendingOperation' := Some 100, complete_with_event' := Some (Complete_with_event 0)\<rparr>\<rparr>"

definition world_window :: "(nat, nat, nat, nat) world" where
  "world_window =
     world_connected\<lparr>factory := (factory world_connected)\<lparr>pendingOperation' := Some 100\<rparr>\<rparr>"

definition world_completed :: "(nat, nat, nat, nat) world" where
  "world_completed =
     world_pending\<lparr>factory := (factory world_pending)
       \<lparr>pendingOperation' := None, complete_with_event' := None\<rparr>,
       calls := [Set_value 5 42]\<rparr>"

text \<open>
  The world of \<^verbatim>\<open>main\<close> before \<^verbatim>\<open>start\<close>; and after \<^verbatim>\<open>start\<close>, with the first sender
  connected to receiver 5 at address 100 and started, while the message thread has not yet
  asked for the hook.
\<close>

definition main_world :: "(nat, nat, nat, event_function kbdhookstate) world" where
  "main_world = \<lparr>factory = eventRangeFactory, heap = Map.empty, calls = []\<rparr>"

definition main_world_published :: "(nat, nat, nat, event_function kbdhookstate) world" where
  "main_world_published =
     main_world\<lparr>factory := (factory main_world)
        \<lparr>storage' := Registration \<lparr>fn' = \<lparr>ef_factory' = This_factory\<rparr>, hHook' = None\<rparr>,
         pendingOperation' := Some 100,
         complete_with_event' := Some (Complete_with_event 0)\<rparr>,
       heap := [100 \<mapsto> (0, \<lparr>factory' = This_factory, stopToken' = 3, receiver' = 5\<rparr>)],
       calls := [Register \<lparr>ef_factory' = This_factory\<rparr>]\<rparr>"

section \<open>Properties\<close>

subsection \<open>The atomic accesses and the two functions, in closed form\<close>

lemma exchange_pendingOperation_simp:
  "exchange_pendingOperation d w =
     (pendingOperation' (factory w), w\<lparr>factory := (factory w)\<lparr>pendingOperation' := d\<rparr>\<rparr>)"
  by (simp add: exchange_pendingOperation_def exchange_def)

lemma exchange_complete_with_event_simp:
  "exchange_complete_with_event d w =
     (complete_with_event' (factory w), w\<lparr>factory := (factory w)\<lparr>complete_with_event' := d\<rparr>\<rparr>)"
  by (simp add: exchange_complete_with_event_def exchange_def)

lemma spin_Some:
  assumes "spin w = Some y"
  shows "complete_with_event' (factory w) = Some (fst y) \<and>
     snd y = w\<lparr>factory := (factory w)\<lparr>complete_with_event' := None\<rparr>\<rparr>"
proof (rule spin.raw_induct
    [where P = "\<lambda>w y. complete_with_event' (factory w) = Some (fst y) \<and>
       snd y = w\<lparr>factory := (factory w)\<lparr>complete_with_event' := None\<rparr>\<rparr>", OF _ assms])
  fix spin' :: "('a, 'b, 'c, 'd) world \<Rightarrow> (complete_function_t \<times> ('a, 'b, 'c, 'd) world) option"
    and w :: "('a, 'b, 'c, 'd) world" and y
  assume IH: "\<And>w y. spin' w = Some y \<Longrightarrow>
      complete_with_event' (factory w) = Some (fst y) \<and>
      snd y = w\<lparr>factory := (factory w)\<lparr>complete_with_event' := None\<rparr>\<rparr>"
    and body: "(case exchange_complete_with_event None w of
        (None, w') \<Rightarrow> spin' w'
      | (Some f, w') \<Rightarrow> Some (f, w')) = Some y"
  show "complete_with_event' (factory w) = Some (fst y) \<and>
      snd y = w\<lparr>factory := (factory w)\<lparr>complete_with_event' := None\<rparr>\<rparr>"
  proof (cases "complete_with_event' (factory w)")
    case None
    let ?w1 = "w\<lparr>factory := (factory w)\<lparr>complete_with_event' := None\<rparr>\<rparr>"
    from body None have "spin' ?w1 = Some y"
      by (simp add: exchange_complete_with_event_simp)
    then have "complete_with_event' (factory ?w1) = Some (fst y)"
      using IH by blast
    then show ?thesis by simp
  next
    case (Some f)
    with body show ?thesis by (auto simp: exchange_complete_with_event_simp)
  qed
qed

lemma spin_empty: "complete_with_event' (factory w) = None \<Longrightarrow> spin w = None"
  using spin_Some [of w] by (cases "spin w") auto

lemma spin_full:
  "complete_with_event' (factory w) = Some f \<Longrightarrow>
     spin w = Some (f, w\<lparr>factory := (factory w)\<lparr>complete_with_event' := None\<rparr>\<rparr>)"
  by (subst spin.simps) (simp add: exchange_complete_with_event_simp)

lemma pending_unchanged:
  "pendingOperation' (factory w) = None \<Longrightarrow> w\<lparr>factory := (factory w)\<lparr>pendingOperation' := None\<rparr>\<rparr> = w"
  by (cases w, cases "factory w") simp

lemma event_function_call_idle: "pendingOperation' (factory w) = None \<Longrightarrow> event_function_call e w = Some (Inr w)"
  by (simp add: event_function_call_def exchange_pendingOperation_simp pending_unchanged)

lemma compare_exchange_strong_pendingOperation_simp:
  "compare_exchange_strong_pendingOperation x d w =
     (if pendingOperation' (factory w) = x
      then (True, w\<lparr>factory := (factory w)\<lparr>pendingOperation' := d\<rparr>\<rparr>)
      else (False, w))"
  by (cases w, cases "factory w")
    (simp add: compare_exchange_strong_pendingOperation_def compare_exchange_strong_def)

lemma compare_exchange_strong_complete_with_event_simp:
  "compare_exchange_strong_complete_with_event x d w =
     (if complete_with_event' (factory w) = x
      then (True, w\<lparr>factory := (factory w)\<lparr>complete_with_event' := d\<rparr>\<rparr>)
      else (False, w))"
  by (cases w, cases "factory w")
    (simp add: compare_exchange_strong_complete_with_event_def compare_exchange_strong_def)

lemma operation_start_eq:
  "operation_start this w =
     (case heap w this of
        None \<Rightarrow> Inl Undefined_behaviour
      | Some (k, self) \<Rightarrow>
          if pendingOperation' (factory w) = None \<and> complete_with_event' (factory w) = None
          then Inr (w\<lparr>factory := (factory w)\<lparr>pendingOperation' := Some this,
                        complete_with_event' := Some (Complete_with_event k)\<rparr>\<rparr>)
          else Inl Terminate)"
  by (auto simp: operation_start_def compare_exchange_strong_pendingOperation_simp
      compare_exchange_strong_complete_with_event_simp split: option.splits)

lemma event_function_call_eq:
  "event_function_call e w =
     (case pendingOperation' (factory w) of
        None \<Rightarrow> Some (Inr w)
      | Some a \<Rightarrow>
          (case complete_with_event' (factory w) of
             None \<Rightarrow> None
           | Some f \<Rightarrow>
               Some (invoke f a e
                 (w\<lparr>factory := (factory w)\<lparr>pendingOperation' := None,
                        complete_with_event' := None\<rparr>\<rparr>))))"
  by (simp add: event_function_call_def exchange_pendingOperation_simp pending_unchanged
      spin_empty spin_full split: option.splits)

lemma invoke_Inr:
  "invoke f a e w = Inr w' \<Longrightarrow>
     \<exists>k self. f = Complete_with_event k \<and> heap w a = Some (k, self) \<and>
       w' = w\<lparr>calls := calls w @ [Set_value (receiver' self) e]\<rparr>"
  by (cases f) (auto simp: complete_with_event_def split: option.splits if_splits)

subsection \<open>What the uses leave unchanged\<close>

lemma event_function_call_frame:
  assumes "event_function_call e w = Some (Inr w')"
  shows "heap w' = heap w"
    and "storage' (factory w') = storage' (factory w)"
    and "registerFn' (factory w') = registerFn' (factory w)"
    and "unregisterFn' (factory w') = unregisterFn' (factory w)"
    and "event_function' (factory w') = event_function' (factory w)"
    and "calls w' = calls w \<or> (\<exists>rcv. calls w' = calls w @ [Set_value rcv e])"
  using assms
  by (auto simp: event_function_call_eq split: option.splits dest!: invoke_Inr)

lemma operation_start_frame:
  assumes "operation_start a w = Inr w'"
  shows "heap w' = heap w"
    and "storage' (factory w') = storage' (factory w)"
    and "registerFn' (factory w') = registerFn' (factory w)"
    and "unregisterFn' (factory w') = unregisterFn' (factory w)"
    and "event_function' (factory w') = event_function' (factory w)"
    and "calls w' = calls w"
  using assms
  by (auto simp: operation_start_eq split: option.splits if_splits)

lemma perform_frame:
  assumes "perform r u w = Some (Inr w')"
  shows "storage' (factory w') = storage' (factory w)"
    and "registerFn' (factory w') = registerFn' (factory w)"
    and "unregisterFn' (factory w') = unregisterFn' (factory w)"
    and "event_function' (factory w') = event_function' (factory w)"
    and "calls w' = calls w \<or> (\<exists>rcv e. u = Deliver e \<and> calls w' = calls w @ [Set_value rcv e])"
  using assms
  by (cases u; auto simp: emplace_def dest: event_function_call_frame operation_start_frame)+

lemma perform_all_frame:
  assumes "perform_all r us w = Some (Inr w')"
  shows "storage' (factory w') = storage' (factory w) \<and>
         registerFn' (factory w') = registerFn' (factory w) \<and>
         unregisterFn' (factory w') = unregisterFn' (factory w) \<and>
         event_function' (factory w') = event_function' (factory w) \<and>
         (\<exists>obs. calls w' = calls w @ obs \<and>
            (\<forall>c \<in> set obs. \<exists>rcv e. c = Set_value rcv e \<and> Deliver e \<in> set us))"
  using assms
proof (induction us arbitrary: w)
  case Nil
  then show ?case by simp
next
  case (Cons u us)
  from Cons.prems obtain w1 where
    first: "perform r u w = Some (Inr w1)" and rest: "perform_all r us w1 = Some (Inr w')"
    by (auto split: option.splits sum.splits)
  note f = perform_frame [OF first] and IH = Cons.IH [OF rest]
  from IH obtain obs where obs: "calls w' = calls w1 @ obs"
    "\<forall>c \<in> set obs. \<exists>rcv e. c = Set_value rcv e \<and> Deliver e \<in> set us" by blast
  from f(5) obtain obs1 where obs1: "calls w1 = calls w @ obs1"
    "\<forall>c \<in> set obs1. \<exists>rcv e. c = Set_value rcv e \<and> u = Deliver e"
    by (elim disjE exE conjE) (simp, fastforce)
  have "calls w' = calls w @ (obs1 @ obs)" using obs(1) obs1(1) by simp
  moreover have "\<forall>c \<in> set (obs1 @ obs). \<exists>rcv e. c = Set_value rcv e \<and> Deliver e \<in> set (u # us)"
    using obs(2) obs1(2) by fastforce
  ultimately have "\<exists>obs. calls w' = calls w @ obs \<and>
            (\<forall>c \<in> set obs. \<exists>rcv e. c = Set_value rcv e \<and> Deliver e \<in> set (u # us))"
    by blast
  with f IH show ?case by simp
qed

lemma registration_calls_append:
  "registration_calls (xs @ ys) = registration_calls xs @ registration_calls ys"
  by (simp add: registration_calls_def)

lemma registration_calls_observations:
  "\<forall>c \<in> set obs. \<exists>rcv e. c = Set_value rcv e \<and> P e \<Longrightarrow> registration_calls obs = []"
  by (induction obs) (auto simp: registration_calls_def)

lemma deliver_all_idle:
  "pendingOperation' (factory w) = None \<Longrightarrow> deliver_all events w = Some (Inr w)"
  by (induction events) (simp_all add: event_function_call_idle)

subsection \<open>Stop tokens\<close>

lemma retoken_simps:
  "factory (retoken g w) = factory w"
  "calls (retoken g w) = calls w"
  "heap (retoken g w) a =
     map_option (\<lambda>(k, self). (k, self\<lparr>stopToken' := g (stopToken' self)\<rparr>)) (heap w a)"
  by (simp_all add: retoken_def)

lemma retoken_factory_update:
  "retoken g (w\<lparr>factory := f\<rparr>) = (retoken g w)\<lparr>factory := f\<rparr>"
  "retoken g (w\<lparr>calls := c\<rparr>) = (retoken g w)\<lparr>calls := c\<rparr>"
  by (simp_all add: retoken_def)

lemma complete_with_event_retoken:
  "complete_with_event k a e (retoken g w) = map_sum id (retoken g) (complete_with_event k a e w)"
  by (auto simp: complete_with_event_def retoken_simps retoken_factory_update
      split: option.splits)

lemma invoke_retoken:
  "invoke f a e (retoken g w) = map_sum id (retoken g) (invoke f a e w)"
  by (cases f) (simp add: complete_with_event_retoken)

lemma event_function_call_retoken:
  "event_function_call e (retoken g w) = map_option (map_sum id (retoken g)) (event_function_call e w)"
  by (simp add: event_function_call_eq retoken_simps invoke_retoken
      retoken_factory_update(1) [symmetric] split: option.splits)

subsection \<open>Executions under a schedule\<close>

lemma run_append:
  "run (ts @ us) c = (case run ts c of Inl x \<Rightarrow> Inl x | Inr c1 \<Rightarrow> run us c1)"
  by (induction ts arbitrary: c) (auto split: sum.splits)

lemma complete_unchanged:
  "complete_with_event' (factory w) = None \<Longrightarrow>
     w\<lparr>factory := (factory w)\<lparr>complete_with_event' := None\<rparr>\<rparr> = w"
  by (cases w, cases "factory w") simp

lemma step_spin:
  "delivery c = Line_47 a e \<Longrightarrow> complete_with_event' (factory (shared c)) = None \<Longrightarrow>
     step Delivery c = Inr c"
  by (cases c) (simp add: exchange_complete_with_event_simp complete_unchanged)

lemma run_spin:
  "delivery c = Line_47 a e \<Longrightarrow> complete_with_event' (factory (shared c)) = None \<Longrightarrow>
     run (replicate n Delivery) c = Inr c"
  by (induction n) (simp_all add: step_spin del: step.simps)

lemma step_returned:
  "delivery c = Delivery_returned \<Longrightarrow> step Delivery c = Inr c"
  "consumer c = Start_returned \<Longrightarrow> step Consumer c = Inr c"
  by (cases c; simp)+

lemma run_returned:
  "delivery c = Delivery_returned \<Longrightarrow> run (replicate n Delivery) c = Inr c"
  by (induction n) (simp_all add: step_returned del: step.simps)

lemma step_Delivery_consumer:
  "step Delivery c = Inr c1 \<Longrightarrow> consumer c1 = consumer c"
  by (auto split: sum.splits)

lemma run_started:
  "consumer c = Start_returned \<Longrightarrow> run ts c = run (filter (\<lambda>t. t = Delivery) ts) c"
proof (induction ts arbitrary: c)
  case Nil
  then show ?case by simp
next
  case (Cons t ts)
  show ?case
  proof (cases t)
    case Delivery
    with Cons show ?thesis
      by (auto split: sum.splits dest: step_Delivery_consumer simp del: step.simps)
  next
    case Consumer
    with Cons show ?thesis by (simp add: step_returned del: step.simps)
  qed
qed

lemma filter_Delivery:
  "filter (\<lambda>t. t = Delivery) ts = replicate (length (filter (\<lambda>t. t = Delivery) ts)) Delivery"
  by (induction ts) auto

lemma schedule_split:
  assumes "Consumer \<in> set ts"
  shows "\<exists>n post. ts = replicate n Delivery @ Consumer # post \<and>
           dropWhile (\<lambda>t. t = Delivery) ts = Consumer # post"
  using assms
proof (induction ts)
  case Nil
  then show ?case by simp
next
  case (Cons t ts)
  show ?case
  proof (cases t)
    case Delivery
    with Cons obtain n post where
      "ts = replicate n Delivery @ Consumer # post"
      "dropWhile (\<lambda>t. t = Delivery) ts = Consumer # post" by auto
    with Delivery have "t # ts = replicate (Suc n) Delivery @ Consumer # post \<and>
        dropWhile (\<lambda>t. t = Delivery) (t # ts) = Consumer # post" by simp
    then show ?thesis by blast
  next
    case Consumer
    then have "t # ts = replicate 0 Delivery @ Consumer # ts \<and>
        dropWhile (\<lambda>t. t = Delivery) (t # ts) = Consumer # ts" by simp
    then show ?thesis by blast
  qed
qed

lemma delivery_step_observation:
  assumes "delivery_step pc w = Inr (pc1, w1)"
  shows "heap w1 = heap w"
    and "delivering pc = None \<Longrightarrow> calls w1 = calls w \<and> delivering pc1 = None"
    and "delivering pc = Some e \<Longrightarrow>
           (calls w1 = calls w \<and> (delivering pc1 = Some e \<or> delivering pc1 = None)) \<or>
           (\<exists>a k self. heap w a = Some (k, self) \<and>
              calls w1 = calls w @ [Set_value (receiver' self) e] \<and> delivering pc1 = None)"
  using assms
  by (cases pc;
      auto simp: exchange_pendingOperation_simp exchange_complete_with_event_simp
        split: option.splits sum.splits dest!: invoke_Inr)+

lemma consumer_step_observation:
  assumes "consumer_step pc w = Inr (pc1, w1)"
  shows "heap w1 = heap w" and "calls w1 = calls w"
  using assms
  by (cases pc;
      auto simp: compare_exchange_strong_pendingOperation_simp
        compare_exchange_strong_complete_with_event_simp
        split: option.splits if_splits)+

lemma step_observation:
  assumes "step t c = Inr c1"
  shows "heap (shared c1) = heap (shared c)"
    and "delivering (delivery c) = None \<Longrightarrow>
           calls (shared c1) = calls (shared c) \<and> delivering (delivery c1) = None"
    and "delivering (delivery c) = Some e \<Longrightarrow>
           (calls (shared c1) = calls (shared c) \<and>
              (delivering (delivery c1) = Some e \<or> delivering (delivery c1) = None)) \<or>
           (\<exists>a k self. heap (shared c) a = Some (k, self) \<and>
              calls (shared c1) = calls (shared c) @ [Set_value (receiver' self) e] \<and>
              delivering (delivery c1) = None)"
proof -
  show "heap (shared c1) = heap (shared c)"
    using assms
    by (cases t)
      (auto split: sum.splits dest: delivery_step_observation(1) consumer_step_observation(1))
  show "calls (shared c1) = calls (shared c) \<and> delivering (delivery c1) = None"
    if "delivering (delivery c) = None"
    using assms that
    by (cases t)
      (auto split: sum.splits dest: delivery_step_observation(2) consumer_step_observation(2))
  show "(calls (shared c1) = calls (shared c) \<and>
              (delivering (delivery c1) = Some e \<or> delivering (delivery c1) = None)) \<or>
           (\<exists>a k self. heap (shared c) a = Some (k, self) \<and>
              calls (shared c1) = calls (shared c) @ [Set_value (receiver' self) e] \<and>
              delivering (delivery c1) = None)"
    if act: "delivering (delivery c) = Some e"
  proof (cases t)
    case Delivery
    with assms obtain pc1 w1 where
      d: "delivery_step (delivery c) (shared c) = Inr (pc1, w1)"
      and c1: "c1 = c\<lparr>delivery := pc1, shared := w1\<rparr>"
      by (auto split: sum.splits)
    from delivery_step_observation(3) [OF d act] c1 show ?thesis by simp
  next
    case Consumer
    with assms obtain pc1 w1 where
      d: "consumer_step (consumer c) (shared c) = Inr (pc1, w1)"
      and c1: "c1 = c\<lparr>consumer := pc1, shared := w1\<rparr>"
      by (auto split: sum.splits)
    from consumer_step_observation(2) [OF d] c1 act show ?thesis by simp
  qed
qed

lemma run_observation:
  assumes "run ts c = Inr c'"
  shows "heap (shared c') = heap (shared c) \<and>
    (delivering (delivery c) = None \<longrightarrow>
       calls (shared c') = calls (shared c) \<and> delivering (delivery c') = None) \<and>
    (delivering (delivery c) = Some e \<longrightarrow>
       calls (shared c') = calls (shared c) \<or>
       (\<exists>a k self. heap (shared c) a = Some (k, self) \<and>
          calls (shared c') = calls (shared c) @ [Set_value (receiver' self) e] \<and>
          delivering (delivery c') = None))"
  using assms
proof (induction ts arbitrary: c)
  case Nil
  then show ?case by simp
next
  case (Cons t ts)
  from Cons.prems obtain c1 where
    first: "step t c = Inr c1" and rest: "run ts c1 = Inr c'"
    by (auto split: sum.splits simp del: step.simps)
  note IH = Cons.IH [OF rest]
  note s = step_observation [OF first]
  have heap: "heap (shared c') = heap (shared c)" using IH s(1) by simp
  have idle: "calls (shared c') = calls (shared c) \<and> delivering (delivery c') = None"
    if "delivering (delivery c) = None"
    using s(2) [OF that] IH by simp
  have active: "calls (shared c') = calls (shared c) \<or>
       (\<exists>a k self. heap (shared c) a = Some (k, self) \<and>
          calls (shared c') = calls (shared c) @ [Set_value (receiver' self) e] \<and>
          delivering (delivery c') = None)"
    if act: "delivering (delivery c) = Some e"
    using s(3) [OF act]
  proof (elim disjE conjE exE)
    assume "calls (shared c1) = calls (shared c)" "delivering (delivery c1) = Some e"
    with IH s(1) show ?thesis by auto
  next
    assume "calls (shared c1) = calls (shared c)" "delivering (delivery c1) = None"
    with IH show ?thesis by simp
  next
    fix a k self
    assume "heap (shared c) a = Some (k, self)"
      "calls (shared c1) = calls (shared c) @ [Set_value (receiver' self) e]"
      "delivering (delivery c1) = None"
    with IH show ?thesis by auto
  qed
  from heap idle active show ?case by blast
qed

lemma run_window:
  assumes "pendingOperation' (factory w) = Some a"
    and "complete_with_event' (factory w) = None"
  shows "run (replicate (Suc n) Delivery)
           \<lparr>delivery = Line_43 e, consumer = pc, shared = w\<rparr> =
         Inr \<lparr>delivery = Line_47 a e, consumer = pc,
              shared = w\<lparr>factory := (factory w)\<lparr>pendingOperation' := None\<rparr>\<rparr>\<rparr>"
proof -
  let ?c1 = "\<lparr>delivery = Line_47 a e, consumer = pc,
              shared = w\<lparr>factory := (factory w)\<lparr>pendingOperation' := None\<rparr>\<rparr>\<rparr>"
  have "step Delivery \<lparr>delivery = Line_43 e, consumer = pc, shared = w\<rparr> = Inr ?c1"
    using assms(1) by (simp add: exchange_pendingOperation_simp)
  moreover have "run (replicate n Delivery) ?c1 = Inr ?c1"
    by (rule run_spin [where a = a and e = e]) (simp_all add: assms(2))
  ultimately show ?thesis by (simp del: step.simps)
qed

text \<open>
  The two functions and their steps agree: \<^verbatim>\<open>start\<close> is its two steps, and a call of the
  callback that returns when run alone is at most three steps.
\<close>

lemma operation_start_steps:
  "operation_start a w =
     map_sum id shared (run [Consumer, Consumer] \<lparr>delivery = pc, consumer = Line_80 a, shared = w\<rparr>)"
  by (auto simp: operation_start_eq compare_exchange_strong_pendingOperation_simp
      compare_exchange_strong_complete_with_event_simp split: option.splits)

lemma event_function_call_steps:
  assumes "event_function_call e w = Some r"
  shows "map_sum id shared
           (run [Delivery, Delivery, Delivery]
              \<lparr>delivery = Line_43 e, consumer = pc, shared = w\<rparr>) = r"
  using assms
  by (auto simp: event_function_call_eq exchange_pendingOperation_simp pending_unchanged
      exchange_complete_with_event_simp split: option.splits sum.splits)

lemma perform_publishes:
  assumes "perform r u w = Some (Inr w')"
    and "pendingOperation' (factory w') = Some b"
    and "pendingOperation' (factory w) \<noteq> Some b"
  shows "u = Start b"
proof (cases u)
  case (Connect a k n receiver)
  with assms show ?thesis by (auto simp: emplace_def)
next
  case (Start a)
  with assms show ?thesis
    by (auto simp: operation_start_eq split: option.splits if_splits)
next
  case (Deliver e)
  with assms show ?thesis
    by (auto simp: event_function_call_eq split: option.splits dest!: invoke_Inr)
qed

subsection \<open>The example worlds, evaluated\<close>

lemma world_connected_simps:
  "heap world_connected 100 = Some (0, \<lparr>factory' = This_factory, stopToken' = 3, receiver' = 5\<rparr>)"
  "pendingOperation' (factory world_connected) = None"
  "complete_with_event' (factory world_connected) = None"
  "storage' (factory world_connected) = Empty 0"
  "calls world_connected = []"
  by (simp_all add: world_connected_def world_created_def emplace_def connect_def
      senderFactory_def create_event_sender_range_def)

lemma world_pending_simps:
  "heap world_pending 100 = Some (0, \<lparr>factory' = This_factory, stopToken' = 3, receiver' = 5\<rparr>)"
  "pendingOperation' (factory world_pending) = Some 100"
  "complete_with_event' (factory world_pending) = Some (Complete_with_event 0)"
  "calls world_pending = []"
  by (simp_all add: world_pending_def world_connected_simps)

lemma world_window_simps:
  "heap world_window 100 = Some (0, \<lparr>factory' = This_factory, stopToken' = 3, receiver' = 5\<rparr>)"
  "pendingOperation' (factory world_window) = Some 100"
  "complete_with_event' (factory world_window) = None"
  "calls world_window = []"
  by (simp_all add: world_window_def world_connected_simps)

lemma world_completed_simps:
  "heap world_completed 100 = Some (0, \<lparr>factory' = This_factory, stopToken' = 3, receiver' = 5\<rparr>)"
  "pendingOperation' (factory world_completed) = None"
  "complete_with_event' (factory world_completed) = None"
  "calls world_completed = [Set_value 5 42]"
  by (simp_all add: world_completed_def world_pending_simps)

lemma world_connected_started: "operation_start 100 world_connected = Inr world_pending"
  by (simp add: operation_start_eq world_connected_simps world_pending_def)

lemma world_pending_delivered: "event_function_call 42 world_pending = Some (Inr world_completed)"
  by (simp add: event_function_call_eq world_pending_simps complete_with_event_def
      world_completed_def)

lemma world_completed_started: "operation_start 100 world_completed =
    Inr (world_completed\<lparr>factory := (factory world_completed)
      \<lparr>pendingOperation' := Some 100, complete_with_event' := Some (Complete_with_event 0)\<rparr>\<rparr>)"
  by (simp add: operation_start_eq world_completed_simps)

section \<open>The claims\<close>

text \<open>
  Claim C1. One call of the event callback with an event \<open>e\<close> hands \<open>e\<close> to at most one
  operation. Run alone, a call that returns either found no pending operation and left the
  world as it was, or took the pending operation out of the factory and made exactly one call
  of \<^verbatim>\<open>set_value\<close>, on that operation's receiver, with \<open>e\<close>. Interleaved in any way with a
  call of \<^verbatim>\<open>start\<close>, the call of the callback makes no call of \<^verbatim>\<open>set_value\<close> or exactly
  one, on the receiver of one operation state, with \<open>e\<close>.
\<close>

theorem no_duplicate_delivery:
  "(event_function_call e w = Some (Inr w') \<longrightarrow>
     (pendingOperation' (factory w) = None \<and> w' = w) \<or>
     (\<exists>a k self. pendingOperation' (factory w) = Some a \<and> heap w a = Some (k, self) \<and>
        calls w' = calls w @ [Set_value (receiver' self) e] \<and>
        pendingOperation' (factory w') = None \<and> complete_with_event' (factory w') = None)) \<and>
   (run ts \<lparr>delivery = Line_43 e, consumer = pc, shared = w\<rparr> = Inr c' \<longrightarrow>
     calls (shared c') = calls w \<or>
     (\<exists>a k self. heap w a = Some (k, self) \<and>
        calls (shared c') = calls w @ [Set_value (receiver' self) e]))"
proof (intro conjI impI)
  assume "event_function_call e w = Some (Inr w')"
  then show "(pendingOperation' (factory w) = None \<and> w' = w) \<or>
     (\<exists>a k self. pendingOperation' (factory w) = Some a \<and> heap w a = Some (k, self) \<and>
        calls w' = calls w @ [Set_value (receiver' self) e] \<and>
        pendingOperation' (factory w') = None \<and> complete_with_event' (factory w') = None)"
    by (auto simp: event_function_call_eq split: option.splits dest!: invoke_Inr)
next
  assume "run ts \<lparr>delivery = Line_43 e, consumer = pc, shared = w\<rparr> = Inr c'"
  from run_observation [OF this, of e]
  show "calls (shared c') = calls w \<or>
     (\<exists>a k self. heap w a = Some (k, self) \<and>
        calls (shared c') = calls w @ [Set_value (receiver' self) e])"
    by auto
qed

theorem no_duplicate_delivery_witness:
  "event_function_call 42 world_pending = Some (Inr world_completed) \<and>
   run [Delivery, Delivery, Delivery]
     \<lparr>delivery = Line_43 42, consumer = Start_returned, shared = world_pending\<rparr> =
     Inr \<lparr>delivery = Delivery_returned, consumer = Start_returned, shared = world_completed\<rparr> \<and>
   pendingOperation' (factory world_pending) = Some 100 \<and>
   calls world_completed = calls world_pending @ [Set_value 5 42]"
proof -
  have alone: "event_function_call 42 world_pending = Some (Inr world_completed)"
    by (rule world_pending_delivered)
  have threads: "run [Delivery, Delivery, Delivery]
     \<lparr>delivery = Line_43 42, consumer = Start_returned, shared = world_pending\<rparr> =
     Inr \<lparr>delivery = Delivery_returned, consumer = Start_returned, shared = world_completed\<rparr>"
    by (simp add: exchange_pendingOperation_simp exchange_complete_with_event_simp
        world_pending_simps complete_with_event_def world_completed_def)
  from no_duplicate_delivery
    [of 42 world_pending world_completed "[Delivery, Delivery, Delivery]" Start_returned
      "\<lparr>delivery = Delivery_returned, consumer = Start_returned, shared = world_completed\<rparr>"]
    alone threads
  show ?thesis by (simp add: world_pending_simps world_completed_simps)
qed

text \<open>
  Claim C2. A call of the event callback with an event \<open>e\<close> while no operation is pending
  returns with the world as it was: nothing is taken from the factory, no trampoline is
  called, no field is written; cut at its atomic accesses, the call returns after the first
  one. Whatever uses of the bridge follow, as long as they do not deliver \<open>e\<close> again, no
  receiver is handed \<open>e\<close> that had not been handed it before the call.
\<close>

theorem drop_when_idle:
  assumes "pendingOperation' (factory w) = None"
  shows "event_function_call e w = Some (Inr w) \<and>
         delivery_step (Line_43 e) w = Inr (Delivery_returned, w) \<and>
         (\<forall>us w'. Deliver e \<notin> set us \<longrightarrow> perform_all r (Deliver e # us) w = Some (Inr w') \<longrightarrow>
            (\<forall>rcv. Set_value rcv e \<in> set (calls w') \<longrightarrow> Set_value rcv e \<in> set (calls w)))"
proof (intro conjI allI impI)
  show idle: "event_function_call e w = Some (Inr w)"
    using assms by (rule event_function_call_idle)
  show "delivery_step (Line_43 e) w = Inr (Delivery_returned, w)"
    using assms by (simp add: exchange_pendingOperation_simp pending_unchanged)
  fix us w' rcv
  assume other: "Deliver e \<notin> set us"
    and run: "perform_all r (Deliver e # us) w = Some (Inr w')"
    and seen: "Set_value rcv e \<in> set (calls w')"
  from run idle have "perform_all r us w = Some (Inr w')" by simp
  from perform_all_frame [OF this] obtain obs where
    "calls w' = calls w @ obs"
    "\<forall>c \<in> set obs. \<exists>rcv e. c = Set_value rcv e \<and> Deliver e \<in> set us"
    by blast
  with other seen show "Set_value rcv e \<in> set (calls w)" by auto
qed

theorem drop_when_idle_witness:
  "pendingOperation' (factory world_connected) = None \<and>
   event_function_call 1 world_connected = Some (Inr world_connected) \<and>
   perform_all \<lparr>range_factory' = This_factory, range' = senderFactory 3\<rparr>
     [Deliver 1, Start 100, Deliver 42] world_connected = Some (Inr world_completed) \<and>
   calls world_completed = [Set_value 5 42] \<and>
   Set_value 5 1 \<notin> set (calls world_completed)"
proof -
  have idle: "pendingOperation' (factory world_connected) = None"
    by (simp add: world_connected_simps)
  have uses: "perform_all \<lparr>range_factory' = This_factory, range' = senderFactory 3\<rparr>
     [Deliver 1, Start 100, Deliver 42] world_connected = Some (Inr world_completed)"
    by (simp add: event_function_call_idle [OF idle] world_connected_started
        world_pending_delivered)
  from drop_when_idle [OF idle, of 1 "\<lparr>range_factory' = This_factory, range' = senderFactory 3\<rparr>"]
    idle uses
  show ?thesis by (simp add: world_completed_simps)
qed

text \<open>
  Claim C3. An operation that has become pending is completed at most once. After the start
  of an operation, one call of the event callback hands the event to the operation's
  receiver and leaves both fields of the factory empty; a second call of the callback then
  finds nothing, calls nothing and changes nothing; and the start of any operation state
  that is alive then succeeds and publishes that operation and its trampoline.
\<close>

theorem completed_at_most_once:
  assumes "operation_start a w = Inr w1"
  shows "\<exists>k self w2. heap w a = Some (k, self) \<and>
           event_function_call e1 w1 = Some (Inr w2) \<and>
           calls w2 = calls w @ [Set_value (receiver' self) e1] \<and>
           pendingOperation' (factory w2) = None \<and> complete_with_event' (factory w2) = None \<and>
           event_function_call e2 w2 = Some (Inr w2) \<and>
           (\<forall>b kb selfb. heap w2 b = Some (kb, selfb) \<longrightarrow>
              (\<exists>w3. operation_start b w2 = Inr w3 \<and>
                 pendingOperation' (factory w3) = Some b \<and>
                 complete_with_event' (factory w3) = Some (Complete_with_event kb)))"
proof -
  from assms obtain k self where
    live: "heap w a = Some (k, self)" and
    idle: "pendingOperation' (factory w) = None" "complete_with_event' (factory w) = None" and
    w1: "w1 = w\<lparr>factory := (factory w)\<lparr>pendingOperation' := Some a,
                  complete_with_event' := Some (Complete_with_event k)\<rparr>\<rparr>"
    by (auto simp: operation_start_eq split: option.splits if_splits)
  define w2 where
    "w2 = w1\<lparr>factory := (factory w1)\<lparr>pendingOperation' := None, complete_with_event' := None\<rparr>,
            calls := calls w1 @ [Set_value (receiver' self) e1]\<rparr>"
  have first: "event_function_call e1 w1 = Some (Inr w2)"
    by (simp add: event_function_call_eq w1 w2_def complete_with_event_def live)
  have obs: "calls w2 = calls w @ [Set_value (receiver' self) e1]"
    by (simp add: w2_def w1)
  have empty: "pendingOperation' (factory w2) = None" "complete_with_event' (factory w2) = None"
    by (simp_all add: w2_def)
  have second: "event_function_call e2 w2 = Some (Inr w2)"
    by (simp add: event_function_call_eq empty)
  have "next": "\<exists>w3. operation_start b w2 = Inr w3 \<and> pendingOperation' (factory w3) = Some b \<and>
           complete_with_event' (factory w3) = Some (Complete_with_event kb)"
    if "heap w2 b = Some (kb, selfb)" for b kb selfb
    using that empty by (simp add: operation_start_eq)
  from live first obs empty second "next" show ?thesis by blast
qed

theorem completed_at_most_once_witness:
  "operation_start 100 world_connected = Inr world_pending \<and>
   event_function_call 42 world_pending = Some (Inr world_completed) \<and>
   calls world_completed = calls world_connected @ [Set_value 5 42] \<and>
   event_function_call 7 world_completed = Some (Inr world_completed) \<and>
   operation_start 100 world_completed =
     Inr (world_completed\<lparr>factory := (factory world_completed)
       \<lparr>pendingOperation' := Some 100, complete_with_event' := Some (Complete_with_event 0)\<rparr>\<rparr>)"
  using completed_at_most_once [OF world_connected_started, of 42 7]
    world_connected_started world_pending_delivered world_completed_started
  by (simp add: world_completed_simps world_connected_simps event_function_call_idle)

text \<open>
  Claim C4. Starting an operation \<open>b\<close> while an operation \<open>a\<close> is pending ends the process:
  the first compare-exchange of \<^verbatim>\<open>start\<close> fails and stores nothing, so \<open>a\<close> stays in the
  factory, and \<^verbatim>\<open>start\<close> calls \<^verbatim>\<open>std::terminate()\<close>, which is neither a normal return nor
  the outcome of a use of a dead object.
\<close>

theorem second_start_terminates:
  assumes "heap w b = Some obj" and "pendingOperation' (factory w) = Some a"
  shows "operation_start b w = Inl Terminate \<and>
         consumer_step (Line_80 b) w = Inl Terminate \<and>
         compare_exchange_strong_pendingOperation None (Some b) w = (False, w)"
  using assms
  by (cases obj) (simp add: operation_start_eq compare_exchange_strong_pendingOperation_simp)

theorem second_start_terminates_witness:
  "heap world_pending 100 = Some (0, \<lparr>factory' = This_factory, stopToken' = 3, receiver' = 5\<rparr>) \<and>
   pendingOperation' (factory world_pending) = Some 100 \<and>
   operation_start 100 world_pending = Inl Terminate \<and>
   consumer_step (Line_80 100) world_pending = Inl Terminate"
  using second_start_terminates [OF world_pending_simps(1) world_pending_simps(2)]
  by (simp add: world_pending_simps)

text \<open>
  Claim C5, as the code has it. The claim calls the wait of the callback a bounded spin and
  says that the callback never waits forever. The loop of lines 46-48 has no bound: it ends
  when an exchange returns a trampoline and not before. In the world below an operation is
  pending and its \<^verbatim>\<open>start\<close> is between its two compare-exchanges, so the trampoline field
  is empty. The callback called there does not return as long as no other thread takes a
  step: run alone it never returns, its loop never ends, and after a thousand of its steps
  it is still in the loop, having changed nothing but the field it took the operation from.
\<close>

theorem bounded_spin_counterexample:
  "heap world_window 100 = Some (0, \<lparr>factory' = This_factory, stopToken' = 3, receiver' = 5\<rparr>) \<and>
   pendingOperation' (factory world_window) = Some 100 \<and>
   complete_with_event' (factory world_window) = None \<and>
   event_function_call 42 world_window = None \<and>
   spin (world_window\<lparr>factory := (factory world_window)\<lparr>pendingOperation' := None\<rparr>\<rparr>) = None \<and>
   run (replicate (Suc 999) Delivery)
     \<lparr>delivery = Line_43 42, consumer = Line_84 100, shared = world_window\<rparr> =
   Inr \<lparr>delivery = Line_47 100 42, consumer = Line_84 100,
        shared = world_window\<lparr>factory := (factory world_window)\<lparr>pendingOperation' := None\<rparr>\<rparr>\<rparr>"
  using run_window [OF world_window_simps(2) world_window_simps(3), of 999 42 "Line_84 100"]
  by (simp add: world_window_simps event_function_call_eq spin_empty
      del: run.simps replicate.simps replicate_Suc)

text \<open>
  Claim C5, amended. The callback has taken, or is about to take, a pending operation \<open>a\<close>
  whose \<^verbatim>\<open>start\<close> has done its first compare-exchange and not yet its second (the consumer
  is at line 84, the trampoline field is empty). The wait is a spin with no bound of its
  own: alone, the callback does not return, and as long as only the callback takes steps it
  stays in the loop of lines 46-48 and changes nothing after taking \<open>a\<close>. In every schedule
  in which the consumer takes its step and the callback takes at least three steps after
  it, the callback has returned: it has taken the trampoline that the start of \<open>a\<close> stored,
  left the trampoline field empty, and called it on \<open>a\<close>, which hands the event to the
  receiver of \<open>a\<close>. So the loop turns as often as the callback is given steps before the
  consumer's store, and the callback returns with the third step it takes after that store
  at the latest.
\<close>

theorem delivery_waits_for_trampoline:
  assumes live: "heap w a = Some (k, self)"
    and taken: "pendingOperation' (factory w) = Some a"
    and window: "complete_with_event' (factory w) = None"
  shows "event_function_call e w = None \<and>
    (\<forall>n. run (replicate (Suc n) Delivery)
            \<lparr>delivery = Line_43 e, consumer = Line_84 a, shared = w\<rparr> =
          Inr \<lparr>delivery = Line_47 a e, consumer = Line_84 a,
               shared = w\<lparr>factory := (factory w)\<lparr>pendingOperation' := None\<rparr>\<rparr>\<rparr>) \<and>
    (\<forall>ts. Consumer \<in> set ts \<and>
           3 \<le> length (filter (\<lambda>t. t = Delivery) (dropWhile (\<lambda>t. t = Delivery) ts)) \<longrightarrow>
          run ts \<lparr>delivery = Line_43 e, consumer = Line_84 a, shared = w\<rparr> =
          Inr \<lparr>delivery = Delivery_returned, consumer = Start_returned,
               shared = w\<lparr>factory := (factory w)\<lparr>pendingOperation' := None,
                                complete_with_event' := None\<rparr>,
                          calls := calls w @ [Set_value (receiver' self) e]\<rparr>\<rparr>)"
proof (intro conjI allI impI)
  let ?c0 = "\<lparr>delivery = Line_43 e, consumer = Line_84 a, shared = w\<rparr>"
  let ?w1 = "w\<lparr>factory := (factory w)\<lparr>pendingOperation' := None\<rparr>\<rparr>"
  let ?c1 = "\<lparr>delivery = Line_47 a e, consumer = Line_84 a, shared = ?w1\<rparr>"
  let ?wp = "w\<lparr>factory := (factory w)\<lparr>complete_with_event' := Some (Complete_with_event k)\<rparr>\<rparr>"
  let ?c0' = "\<lparr>delivery = Line_43 e, consumer = Start_returned, shared = ?wp\<rparr>"
  let ?w1p = "w\<lparr>factory := (factory w)\<lparr>pendingOperation' := None,
                   complete_with_event' := Some (Complete_with_event k)\<rparr>\<rparr>"
  let ?c1' = "\<lparr>delivery = Line_47 a e, consumer = Start_returned, shared = ?w1p\<rparr>"
  let ?wf = "w\<lparr>factory := (factory w)\<lparr>pendingOperation' := None, complete_with_event' := None\<rparr>,
               calls := calls w @ [Set_value (receiver' self) e]\<rparr>"
  let ?fin = "\<lparr>delivery = Delivery_returned, consumer = Start_returned, shared = ?wf\<rparr>"
  show "event_function_call e w = None"
    by (simp add: event_function_call_eq taken window)
  have take: "step Delivery ?c0 = Inr ?c1"
    by (simp add: exchange_pendingOperation_simp taken)
  have spinning: "run (replicate n Delivery) ?c1 = Inr ?c1" for n
    by (rule run_spin [where a = a and e = e]) (simp_all add: window)
  show pre: "run (replicate (Suc n) Delivery) ?c0 = Inr ?c1" for n
    using take spinning [of n] by (simp del: step.simps)
  have publish0: "step Consumer ?c0 = Inr ?c0'"
    by (simp add: live window compare_exchange_strong_complete_with_event_simp)
  have publish1: "step Consumer ?c1 = Inr ?c1'"
    by (simp add: live window compare_exchange_strong_complete_with_event_simp)
  have finish1: "run (replicate 2 Delivery) ?c1' = Inr ?fin"
    by (simp add: numeral_2_eq_2 exchange_complete_with_event_simp complete_with_event_def live)
  have finish0: "run (replicate 3 Delivery) ?c0' = Inr ?fin"
    by (simp add: numeral_3_eq_3 exchange_pendingOperation_simp taken
        exchange_complete_with_event_simp complete_with_event_def live)
  have rest: "run (replicate j Delivery) ?fin = Inr ?fin" for j
    by (rule run_returned) simp
  have tail0: "run (replicate m Delivery) ?c0' = Inr ?fin" if "3 \<le> m" for m
  proof -
    from that obtain j where "m = 3 + j" using le_Suc_ex by blast
    then have "replicate m Delivery = replicate 3 Delivery @ replicate j Delivery"
      by (simp only: replicate_add)
    then show ?thesis
      by (simp only: run_append finish0 rest sum.case)
  qed
  have tail1: "run (replicate m Delivery) ?c1' = Inr ?fin" if "3 \<le> m" for m
  proof -
    from that obtain j where "m = 2 + j" using le_Suc_ex [of 2 m] by auto
    then have "replicate m Delivery = replicate 2 Delivery @ replicate j Delivery"
      by (simp only: replicate_add)
    then show ?thesis
      by (simp only: run_append finish1 rest sum.case)
  qed
  fix ts
  assume fair: "Consumer \<in> set ts \<and>
      3 \<le> length (filter (\<lambda>t. t = Delivery) (dropWhile (\<lambda>t. t = Delivery) ts))"
  then obtain n post where
    ts: "ts = replicate n Delivery @ Consumer # post" and
    drop: "dropWhile (\<lambda>t. t = Delivery) ts = Consumer # post"
    using schedule_split by blast
  define m where "m = length (filter (\<lambda>t. t = Delivery) post)"
  from fair drop have m: "3 \<le> m" by (simp add: m_def)
  have post: "run post c = run (replicate m Delivery) c" if "consumer c = Start_returned" for c
    using run_started [OF that, of post] filter_Delivery [of post] by (simp add: m_def)
  show "run ts ?c0 = Inr ?fin"
  proof (cases n)
    case 0
    with ts have "run ts ?c0 = run post ?c0'"
      using publish0 by (simp del: step.simps)
    also have "\<dots> = Inr ?fin" using post [of ?c0'] tail0 [OF m] by simp
    finally show ?thesis .
  next
    case (Suc n')
    with ts have "run ts ?c0 = run (Consumer # post) ?c1"
      using pre [of n'] by (simp add: run_append del: run.simps replicate.simps)
    also have "\<dots> = run post ?c1'" using publish1 by (simp del: step.simps)
    also have "\<dots> = Inr ?fin" using post [of ?c1'] tail1 [OF m] by simp
    finally show ?thesis .
  qed
qed

theorem delivery_waits_for_trampoline_witness:
  "heap world_window 100 = Some (0, \<lparr>factory' = This_factory, stopToken' = 3, receiver' = 5\<rparr>) \<and>
   pendingOperation' (factory world_window) = Some 100 \<and>
   complete_with_event' (factory world_window) = None \<and>
   event_function_call 42 world_window = None \<and>
   run [Delivery, Delivery, Delivery, Consumer, Delivery, Consumer, Delivery, Delivery]
     \<lparr>delivery = Line_43 42, consumer = Line_84 100, shared = world_window\<rparr> =
   Inr \<lparr>delivery = Delivery_returned, consumer = Start_returned,
        shared = world_window\<lparr>factory := (factory world_window)
                   \<lparr>pendingOperation' := None, complete_with_event' := None\<rparr>,
                   calls := [Set_value 5 42]\<rparr>\<rparr>"
proof -
  let ?ts = "[Delivery, Delivery, Delivery, Consumer, Delivery, Consumer, Delivery, Delivery]"
  note waits = delivery_waits_for_trampoline
    [OF world_window_simps(1) world_window_simps(2) world_window_simps(3), of 42]
  have fair: "Consumer \<in> set ?ts \<and>
      3 \<le> length (filter (\<lambda>t. t = Delivery) (dropWhile (\<lambda>t. t = Delivery) ?ts))"
    by simp
  from waits have "event_function_call 42 world_window = None" by (rule conjunct1)
  moreover have "run ?ts
     \<lparr>delivery = Line_43 42, consumer = Line_84 100, shared = world_window\<rparr> =
   Inr \<lparr>delivery = Delivery_returned, consumer = Start_returned,
        shared = world_window\<lparr>factory := (factory world_window)
                   \<lparr>pendingOperation' := None, complete_with_event' := None\<rparr>,
                   calls := calls world_window @ [Set_value (receiver'
                     \<lparr>factory' = This_factory, stopToken' = 3::nat, receiver' = 5::nat\<rparr>) 42]\<rparr>\<rparr>"
    by (rule waits [THEN conjunct2, THEN conjunct2, THEN spec, THEN mp, OF fair])
  ultimately show ?thesis
    by (simp add: world_window_simps del: run.simps)
qed

text \<open>
  Claim C6. In a lifetime of the bridge that runs to the destruction of the range, the
  register callable is called exactly once and the unregister callable exactly once, in this
  order, and the unregister callable gets the registration that the register callable
  returned. At every moment between \<^verbatim>\<open>start\<close> and the destruction of the range, so
  whenever an operation is connected, started or completed, the register callable has been
  called once and the unregister callable not at all. The calls made before the lifetime
  are those of the world the lifetime starts in.
\<close>

theorem registration_symmetry:
  assumes "bridge_lifetime token us w = Some (Inr w')"
  shows "registration_calls (calls w') =
           registration_calls (calls w) @
             [Register (event_function' (factory w)),
              Unregister (registerFn' (factory w) (event_function' (factory w)))] \<and>
         (\<forall>vs ws wm. us = vs @ ws \<longrightarrow>
            perform_all (fst (factory_start token w)) vs (snd (factory_start token w))
              = Some (Inr wm) \<longrightarrow>
            registration_calls (calls wm) =
              registration_calls (calls w) @ [Register (event_function' (factory w))])"
proof -
  obtain r w1 where start: "factory_start token w = (r, w1)"
    by (cases "factory_start token w")
  then have w1: "calls w1 = calls w @ [Register (event_function' (factory w))]"
    "storage' (factory w1) = Registration (registerFn' (factory w) (event_function' (factory w)))"
    by (auto simp: factory_start_def Let_def)
  have during: "registration_calls (calls wm) =
      registration_calls (calls w) @ [Register (event_function' (factory w))]"
    if "perform_all r vs w1 = Some (Inr wm)" for vs wm
  proof -
    from perform_all_frame [OF that] obtain obs where
      "calls wm = calls w1 @ obs"
      "\<forall>c \<in> set obs. \<exists>rcv e. c = Set_value rcv e \<and> Deliver e \<in> set vs"
      by blast
    then show ?thesis
      using registration_calls_observations [of obs "\<lambda>e. Deliver e \<in> set vs"]
      by (simp add: w1 registration_calls_append registration_calls_def)
  qed
  from assms start obtain w2 where
    uses: "perform_all r us w1 = Some (Inr w2)" and dtor: "sender_range_dtor r w2 = Inr w'"
    by (auto simp: bridge_lifetime_def split: option.splits sum.splits)
  from perform_all_frame [OF uses] w1
  have "storage' (factory w2) = Registration (registerFn' (factory w) (event_function' (factory w)))"
    by simp
  with dtor have "calls w' = calls w2 @
      [Unregister (registerFn' (factory w) (event_function' (factory w))),
       Destroy_registration (unregisterFn' (factory w2)
          (registerFn' (factory w) (event_function' (factory w))))]"
    by (auto simp: sender_range_dtor_def)
  then have "registration_calls (calls w') =
      registration_calls (calls w2) @
        [Unregister (registerFn' (factory w) (event_function' (factory w)))]"
    by (simp add: registration_calls_def)
  with during [OF uses] during start show ?thesis by simp
qed

theorem registration_symmetry_witness:
  "bridge_lifetime 3
     [Connect 100 0 0 5, Start 100, Deliver 42, Connect 200 0 1 5, Start 200, Deliver 7]
     world_created =
   Some (Inr (world_created
     \<lparr>factory := (factory world_created)\<lparr>storage' := Destroyed\<rparr>,
      heap := [100 \<mapsto> (0, \<lparr>factory' = This_factory, stopToken' = 3, receiver' = 5\<rparr>),
               200 \<mapsto> (0, \<lparr>factory' = This_factory, stopToken' = 3, receiver' = 5\<rparr>)],
      calls := [Register \<lparr>ef_factory' = This_factory\<rparr>, Set_value 5 42, Set_value 5 7,
                Unregister 7, Destroy_registration 7]\<rparr>)) \<and>
   registration_calls
     [Register \<lparr>ef_factory' = This_factory\<rparr>, Set_value (5::nat) (42::nat), Set_value 5 7,
      Unregister (7::nat), Destroy_registration 7] =
   [Register \<lparr>ef_factory' = This_factory\<rparr>, Unregister 7]"
proof -
  have lifetime: "bridge_lifetime 3
     [Connect 100 0 0 5, Start 100, Deliver 42, Connect 200 0 1 5, Start 200, Deliver 7]
     world_created =
   Some (Inr (world_created
     \<lparr>factory := (factory world_created)\<lparr>storage' := Destroyed\<rparr>,
      heap := [100 \<mapsto> (0, \<lparr>factory' = This_factory, stopToken' = 3, receiver' = 5\<rparr>),
               200 \<mapsto> (0, \<lparr>factory' = This_factory, stopToken' = 3, receiver' = 5\<rparr>)],
      calls := [Register \<lparr>ef_factory' = This_factory\<rparr>, Set_value 5 42, Set_value 5 7,
                Unregister 7, Destroy_registration 7]\<rparr>))"
    by (simp add: bridge_lifetime_def factory_start_def Let_def world_created_def
        create_event_sender_range_def emplace_def connect_def senderFactory_def
        operation_start_eq event_function_call_eq complete_with_event_def
        sender_range_dtor_def)
  from registration_symmetry [OF lifetime] show ?thesis
    using lifetime
    by (simp add: world_created_def create_event_sender_range_def registration_calls_def)
qed

text \<open>
  Claim C7, as the code has it. The claim says that a hook that cannot be installed is
  reported to the caller of the register step as a failure value, before any operation can
  be published. In the code the register callable cannot fail: \<^verbatim>\<open>start\<close> stores whatever
  it returns as the registration and returns the range. The registration of \<^verbatim>\<open>main\<close> asks
  for the hook on its message thread, after its constructor has returned, and that thread
  calls \<^verbatim>\<open>std::terminate()\<close> when the hook is refused. In the execution below \<^verbatim>\<open>start\<close> has
  returned a range, the first operation has been published, the stored registration holds no
  hook, and the message thread then ends the process.
\<close>

theorem hook_failure_reported_counterexample:
  "operation_start 100
     (emplace 100 (connect 0 (range' (fst (factory_start 3 main_world)) 0) 5)
        (snd (factory_start 3 main_world))) = Inr main_world_published \<and>
   pendingOperation' (factory main_world_published) = Some 100 \<and>
   storage' (factory main_world_published) =
     Registration \<lparr>fn' = \<lparr>ef_factory' = This_factory\<rparr>, hHook' = None\<rparr> \<and>
   msgThread None \<lparr>fn' = \<lparr>ef_factory' = This_factory\<rparr>, hHook' = None\<rparr> = Inl Terminate"
  by (simp add: main_world_published_def main_world_def eventRangeFactory_def
      create_event_sender_range_def kbdhookstate_ctor_def factory_start_def Let_def
      emplace_def connect_def senderFactory_def operation_start_eq msgThread_def)

text \<open>
  Claim C7, amended. When the hook cannot be installed, the message thread of the
  registration ends the process with \<^verbatim>\<open>std::terminate()\<close>; when it can, the thread stores the
  handle and goes on. \<^verbatim>\<open>start\<close> of the factory has no failure result: it calls the register
  callable once, stores the result as the registration and returns the range. And the start
  of an operation does not read the storage of the registration: it publishes the operation
  in the same way whatever the storage holds.
\<close>

theorem hook_failure_terminates:
  "msgThread None self = Inl Terminate \<and>
   msgThread (Some h) self = Inr (self\<lparr>hHook' := Some h\<rparr>) \<and>
   factory_start token w =
     (\<lparr>range_factory' = This_factory, range' = senderFactory token\<rparr>,
      w\<lparr>factory := (factory w)\<lparr>storage' :=
             Registration (registerFn' (factory w) (event_function' (factory w)))\<rparr>,
        calls := calls w @ [Register (event_function' (factory w))]\<rparr>) \<and>
   operation_start a (w\<lparr>factory := (factory w)\<lparr>storage' := s\<rparr>\<rparr>) =
     map_sum id (\<lambda>w'. w'\<lparr>factory := (factory w')\<lparr>storage' := s\<rparr>\<rparr>) (operation_start a w)"
  by (simp add: msgThread_def factory_start_def Let_def operation_start_eq
      split: option.splits)

text \<open>
  Claim C8. Taking the sender of any position of the range and connecting it to a receiver
  yields one operation state, made of the factory pointer, the token given to \<^verbatim>\<open>start\<close> and
  the receiver. Placing it at an address changes the heap at that address only, and neither
  the factory, so neither field that publishes an operation, nor the calls made; \<^verbatim>\<open>start\<close>
  of the factory leaves those two fields as they were as well. The operation is published
  by its own \<^verbatim>\<open>start\<close>: with both fields empty, \<^verbatim>\<open>start\<close> stores the operation's address
  and its trampoline. And among the uses of the bridge, only the start of an operation makes
  that operation the pending one.
\<close>

theorem advance_does_not_publish:
  "(case factory_start token w of
      (r, w1) \<Rightarrow>
        let created = connect k (range' r (int n)) receiver;
            w2 = emplace a created w1
        in created = (k, \<lparr>factory' = This_factory, stopToken' = token, receiver' = receiver\<rparr>) \<and>
           heap w2 = (heap w1)(a \<mapsto> created) \<and>
           factory w2 = factory w1 \<and> calls w2 = calls w1 \<and>
           pendingOperation' (factory w1) = pendingOperation' (factory w) \<and>
           complete_with_event' (factory w1) = complete_with_event' (factory w) \<and>
           (pendingOperation' (factory w) = None \<and> complete_with_event' (factory w) = None \<longrightarrow>
              operation_start a w2 =
                Inr (w2\<lparr>factory := (factory w2)\<lparr>pendingOperation' := Some a,
                          complete_with_event' := Some (Complete_with_event k)\<rparr>\<rparr>))) \<and>
   (\<forall>u w' b. perform r' u w = Some (Inr w') \<longrightarrow>
      pendingOperation' (factory w') = Some b \<longrightarrow>
      pendingOperation' (factory w) \<noteq> Some b \<longrightarrow> u = Start b)"
proof (intro conjI allI impI)
  show "case factory_start token w of
      (r, w1) \<Rightarrow>
        let created = connect k (range' r (int n)) receiver;
            w2 = emplace a created w1
        in created = (k, \<lparr>factory' = This_factory, stopToken' = token, receiver' = receiver\<rparr>) \<and>
           heap w2 = (heap w1)(a \<mapsto> created) \<and>
           factory w2 = factory w1 \<and> calls w2 = calls w1 \<and>
           pendingOperation' (factory w1) = pendingOperation' (factory w) \<and>
           complete_with_event' (factory w1) = complete_with_event' (factory w) \<and>
           (pendingOperation' (factory w) = None \<and> complete_with_event' (factory w) = None \<longrightarrow>
              operation_start a w2 =
                Inr (w2\<lparr>factory := (factory w2)\<lparr>pendingOperation' := Some a,
                          complete_with_event' := Some (Complete_with_event k)\<rparr>\<rparr>))"
    by (simp add: factory_start_def Let_def connect_def emplace_def senderFactory_def
        operation_start_eq)
next
  fix u w' b
  assume "perform r' u w = Some (Inr w')" "pendingOperation' (factory w') = Some b"
    "pendingOperation' (factory w) \<noteq> Some b"
  then show "u = Start b" by (rule perform_publishes)
qed

theorem advance_does_not_publish_witness:
  "pendingOperation' (factory world_created) = None \<and>
   complete_with_event' (factory world_created) = None \<and>
   pendingOperation' (factory
     (emplace 100 (connect 0 (range' (fst (factory_start 3 world_created)) 0) 5)
        (snd (factory_start 3 world_created)))) = None \<and>
   pendingOperation' (factory (projr (operation_start 100
     (emplace 100 (connect 0 (range' (fst (factory_start 3 world_created)) 0) 5)
        (snd (factory_start 3 world_created)))))) = Some 100"
  using advance_does_not_publish
    [where token = 3 and w = world_created and k = 0 and n = 0 and receiver = 5 and a = 100
       and r' = "\<lparr>range_factory' = This_factory, range' = senderFactory 3\<rparr>"]
  by (simp add: Let_def factory_start_def connect_def emplace_def senderFactory_def
      operation_start_eq world_created_def create_event_sender_range_def)

text \<open>
  Claim C9. Every operation state connected from a sender of the range holds the token
  given to \<^verbatim>\<open>start\<close>. The event callback and the trampoline do not read it: in a world in
  which the stop tokens of the operation states are replaced in any way, both end in the
  same way, with the same factory and the same calls, and with the world that differs from
  the original result by the same replacement.
\<close>

theorem stop_token_not_consulted:
  "stopToken' (snd (connect k (range' (fst (factory_start token w)) n) receiver)) = token \<and>
   event_function_call e (retoken g w) =
     map_option (map_sum id (retoken g)) (event_function_call e w) \<and>
   complete_with_event k a e (retoken g w) =
     map_sum id (retoken g) (complete_with_event k a e w) \<and>
   delivery_step pc (retoken g w) = map_sum id (map_prod id (retoken g)) (delivery_step pc w) \<and>
   calls (retoken g w) = calls w \<and> factory (retoken g w) = factory w"
proof -
  have "delivery_step pc (retoken g w) = map_sum id (map_prod id (retoken g)) (delivery_step pc w)"
  proof (cases pc)
    case (Line_43 e)
    then show ?thesis
      by (simp add: exchange_pendingOperation_simp retoken_simps
          retoken_factory_update split: option.splits)
  next
    case (Line_47 a e)
    then show ?thesis
      by (simp add: exchange_complete_with_event_simp retoken_simps
          retoken_factory_update split: option.splits)
  next
    case (Line_49 a f e)
    then show ?thesis
      by (cases "invoke f a e w") (simp_all add: invoke_retoken)
  next
    case Delivery_returned
    then show ?thesis by simp
  qed
  then show ?thesis
    by (simp add: event_function_call_retoken complete_with_event_retoken retoken_simps
        factory_start_def Let_def connect_def senderFactory_def)
qed

text \<open>
  Claim C10. A factory whose \<^verbatim>\<open>start\<close> is never called: whatever events the callback is
  called with, the lifetime ends in the world it began in. No call was made, so neither the
  register nor the unregister callable was called, by the destructor or before it; the
  storage still holds the integer 0 it was created with, so no registration was
  constructed; and both fields that publish an operation are empty after every call of the
  callback.
\<close>

theorem unstarted_factory_is_inert:
  "unstarted_lifetime registerFn unregisterFn events =
     Some (Inr \<lparr>factory = create_event_sender_range registerFn unregisterFn,
                heap = Map.empty, calls = []\<rparr>) \<and>
   (\<forall>n. deliver_all (take n events)
           \<lparr>factory = create_event_sender_range registerFn unregisterFn,
            heap = Map.empty, calls = []\<rparr> =
         Some (Inr \<lparr>factory = create_event_sender_range registerFn unregisterFn,
                heap = Map.empty, calls = []\<rparr>)) \<and>
   event_sender_range_factory_dtor
      \<lparr>factory = create_event_sender_range registerFn unregisterFn,
       heap = Map.empty, calls = []\<rparr> =
     \<lparr>factory = create_event_sender_range registerFn unregisterFn,
      heap = Map.empty, calls = []\<rparr> \<and>
   storage' (create_event_sender_range registerFn unregisterFn) = Empty 0 \<and>
   pendingOperation' (create_event_sender_range registerFn unregisterFn) = None \<and>
   complete_with_event' (create_event_sender_range registerFn unregisterFn) = None"
  by (simp add: unstarted_lifetime_def deliver_all_idle event_sender_range_factory_dtor_def
      storage_dtor_def create_event_sender_range_def)

end
